theory Spec2Isabelle
  imports Main "HOL-Library.Word"
begin

section \<open>Python values, byte strings and exceptions\<close>

text \<open>
  A Python \<open>bytes\<close> object is a list of 8-bit words.  A Python \<open>str\<close> is a list of
  code points; the code points of a real \<open>str\<close> are below \<open>0x110000\<close>, and a \<open>str\<close>
  may hold lone surrogates (\<open>0xD800 .. 0xDFFF\<close>), which no codec can encode.
  The values handed to the storage layer (\<open>Any\<close> in the source) are strings, integers
  (\<open>True\<close> and \<open>False\<close> are the integers 1 and 0, \<open>bool\<close> being a subclass of \<open>int\<close>)
  or objects of any other class.
\<close>

type_synonym byte = "8 word"
type_synonym bytes = "byte list"
type_synonym str = "nat list"

datatype pyvalue = PyStr str | PyInt int | PyOther

text \<open>
  The exceptions that the storage module raises or lets through.  \<open>ColumnDoesNotExist\<close>
  carries the set of offending column names: the source joins a Python \<open>set\<close> with
  commas, in the iteration order of the set.
\<close>

datatype error =
    AssertionError
  | ValueError
  | OverflowError
  | KeyError
  | RuntimeError
  | NotImplementedError
  | ZeroDivisionError
  | UnicodeEncodeError
  | UnicodeDecodeError
  | PydanticSerializationError
  | ValidationError
  | FileExistsError
  | FileNotFoundError
  | IsADirectoryError
  | NotADirectoryError
  | ColumnDoesNotExist "str set"

section \<open>The UTF-8 codec (\<open>str.encode("utf-8")\<close>, \<open>bytes.decode("utf-8")\<close>)\<close>

definition is_surrogate :: "nat \<Rightarrow> bool" where
  "is_surrogate c \<longleftrightarrow> 0xD800 \<le> c \<and> c \<le> 0xDFFF"

definition encode_char :: "nat \<Rightarrow> bytes option" where
  "encode_char c =
     (if c < 0x80 then Some [of_nat c]
      else if c < 0x800 then Some [of_nat (0xC0 + c div 64), of_nat (0x80 + c mod 64)]
      else if is_surrogate c then None
      else if c < 0x10000 then
        Some [of_nat (0xE0 + c div 4096), of_nat (0x80 + c div 64 mod 64),
              of_nat (0x80 + c mod 64)]
      else if c < 0x110000 then
        Some [of_nat (0xF0 + c div 262144), of_nat (0x80 + c div 4096 mod 64),
              of_nat (0x80 + c div 64 mod 64), of_nat (0x80 + c mod 64)]
      else None)"

fun str_encode :: "str \<Rightarrow> error + bytes" where
  "str_encode [] = Inr []"
| "str_encode (c # cs) =
     (case encode_char c of
        None \<Rightarrow> Inl UnicodeEncodeError
      | Some bs \<Rightarrow> (case str_encode cs of Inl e \<Rightarrow> Inl e | Inr r \<Rightarrow> Inr (bs @ r)))"

text \<open>
  One step of the decoder at the head of the input: either a code point and the number
  of bytes it took, or the length of the ill-formed prefix (what the \<open>replace\<close> error
  handler turns into one \<open>U+FFFD\<close>).  Overlong forms, surrogates and values above
  \<open>0x10FFFF\<close> are refused through the range of the second byte.
\<close>

datatype utf8_step = Scalar nat nat | Malformed nat

definition cont :: "byte \<Rightarrow> bool" where
  "cont b \<longleftrightarrow> 0x80 \<le> unat b \<and> unat b \<le> 0xBF"

definition second_ok :: "nat \<Rightarrow> byte \<Rightarrow> bool" where
  "second_ok x b =
     (if x = 0xE0 then 0xA0 \<le> unat b \<and> unat b \<le> 0xBF
      else if x = 0xED then 0x80 \<le> unat b \<and> unat b \<le> 0x9F
      else if x = 0xF0 then 0x90 \<le> unat b \<and> unat b \<le> 0xBF
      else if x = 0xF4 then 0x80 \<le> unat b \<and> unat b \<le> 0x8F
      else cont b)"

definition decode_step :: "byte \<Rightarrow> bytes \<Rightarrow> utf8_step" where
  "decode_step b bs =
     (let x = unat b in
      if x < 0x80 then Scalar x 1
      else if x < 0xC2 then Malformed 1
      else if x < 0xE0 then
        (case bs of
           [] \<Rightarrow> Malformed 1
         | b1 # _ \<Rightarrow>
             if cont b1 then Scalar ((x - 0xC0) * 64 + (unat b1 - 0x80)) 2 else Malformed 1)
      else if x < 0xF0 then
        (case bs of
           [] \<Rightarrow> Malformed 1
         | b1 # r1 \<Rightarrow>
             if \<not> second_ok x b1 then Malformed 1
             else (case r1 of
                     [] \<Rightarrow> Malformed 2
                   | b2 # _ \<Rightarrow>
                       if cont b2 then
                         Scalar ((x - 0xE0) * 4096 + (unat b1 - 0x80) * 64 + (unat b2 - 0x80)) 3
                       else Malformed 2))
      else if x < 0xF5 then
        (case bs of
           [] \<Rightarrow> Malformed 1
         | b1 # r1 \<Rightarrow>
             if \<not> second_ok x b1 then Malformed 1
             else (case r1 of
                     [] \<Rightarrow> Malformed 2
                   | b2 # r2 \<Rightarrow>
                       if \<not> cont b2 then Malformed 2
                       else (case r2 of
                               [] \<Rightarrow> Malformed 3
                             | b3 # _ \<Rightarrow>
                                 if cont b3 then
                                   Scalar ((x - 0xF0) * 262144 + (unat b1 - 0x80) * 4096
                                           + (unat b2 - 0x80) * 64 + (unat b3 - 0x80)) 4
                                 else Malformed 3)))
      else Malformed 1)"

datatype errors_mode = strict | replace

fun bytes_decode :: "errors_mode \<Rightarrow> bytes \<Rightarrow> error + str" where
  "bytes_decode m [] = Inr []"
| "bytes_decode m (b # bs) =
     (case decode_step b bs of
        Scalar c n \<Rightarrow>
          (case bytes_decode m (drop (n - 1) bs) of Inl e \<Rightarrow> Inl e | Inr r \<Rightarrow> Inr (c # r))
      | Malformed n \<Rightarrow>
          (if m = strict then Inl UnicodeDecodeError
           else (case bytes_decode m (drop (n - 1) bs) of
                   Inl e \<Rightarrow> Inl e
                 | Inr r \<Rightarrow> Inr (0xFFFD # r))))"

section \<open>The integer codec (\<open>int.to_bytes\<close>, \<open>int.from_bytes\<close>, big-endian, signed)\<close>

definition to_bytes :: "nat \<Rightarrow> int \<Rightarrow> error + bytes" where
  "to_bytes n v =
     (if - (2 ^ (8 * n)) \<le> 2 * v \<and> 2 * v < 2 ^ (8 * n)
      then Inr (map (\<lambda>i. of_int (v div 256 ^ (n - 1 - i))) [0..<n])
      else Inl OverflowError)"

definition from_bytes :: "bytes \<Rightarrow> int" where
  "from_bytes bs =
     (let u = foldl (\<lambda>acc b. acc * 256 + uint b) 0 bs
      in if 2 ^ (8 * length bs) \<le> 2 * u then u - 2 ^ (8 * length bs) else u)"

section \<open>Datatypes and the value codec\<close>

datatype DataTypes = STRING | INTEGER

fun DATATYPE_LENGHTS :: "DataTypes \<Rightarrow> nat" where
  "DATATYPE_LENGHTS STRING = 16"
| "DATATYPE_LENGHTS INTEGER = 8"

definition left_pad :: "bytes \<Rightarrow> nat \<Rightarrow> bytes" where
  "left_pad val len = replicate (len - length val) 0 @ val"

text \<open>
  \<open>_serialize_value\<close>: the \<open>match\<close> on the pair of datatype and value, then the
  \<open>assert\<close> on the width of the slot.
\<close>

definition serialize_value :: "DataTypes \<Rightarrow> pyvalue \<Rightarrow> error + bytes" where
  "serialize_value dt val =
     (case (case (dt, val) of
              (STRING, PyStr s) \<Rightarrow>
                (case str_encode s of
                   Inl e \<Rightarrow> Inl e
                 | Inr b \<Rightarrow> Inr (left_pad b (DATATYPE_LENGHTS STRING)))
            | (INTEGER, PyInt i) \<Rightarrow> to_bytes (DATATYPE_LENGHTS INTEGER) i
            | _ \<Rightarrow> Inl ValueError) of
        Inl e \<Rightarrow> Inl e
      | Inr as_bytes \<Rightarrow>
          if length as_bytes = DATATYPE_LENGHTS dt then Inr as_bytes
          else Inl AssertionError)"

text \<open>
  A binary file object (\<open>IOBase\<close>): the bytes of the file and the position of the next
  read.  \<open>read n\<close> returns at most \<open>n\<close> bytes and fewer at the end of the file.
\<close>

record IOBase =
  buf :: bytes
  pos :: nat

definition BytesIO :: "bytes \<Rightarrow> IOBase" where
  "BytesIO bs = \<lparr>buf = bs, pos = 0\<rparr>"

definition seek :: "nat \<Rightarrow> IOBase \<Rightarrow> IOBase" where
  "seek p fd = fd\<lparr>pos := p\<rparr>"

definition read :: "nat \<Rightarrow> IOBase \<Rightarrow> bytes \<times> IOBase" where
  "read n fd =
     (let out = take n (drop (pos fd) (buf fd))
      in (out, fd\<lparr>pos := pos fd + length out\<rparr>))"

definition lstrip :: "byte \<Rightarrow> bytes \<Rightarrow> bytes" where
  "lstrip z bs = dropWhile (\<lambda>b. b = z) bs"

definition deserialize_value :: "DataTypes \<Rightarrow> IOBase \<Rightarrow> (error + pyvalue) \<times> IOBase" where
  "deserialize_value dt fd =
     (let (value_as_bytes, fd') = read (DATATYPE_LENGHTS dt) fd
      in (case dt of
            STRING \<Rightarrow>
              (case bytes_decode strict (lstrip 0 value_as_bytes) of
                 Inl e \<Rightarrow> Inl e
               | Inr s \<Rightarrow> Inr (PyStr s))
          | INTEGER \<Rightarrow> Inr (PyInt (from_bytes value_as_bytes)),
          fd'))"

section \<open>Dictionaries\<close>

text \<open>
  A Python \<open>dict\<close> keeps its keys in the order of their first insertion, and a later
  value for a key replaces the earlier one in place: an association list with distinct
  keys.  \<open>dict\<close> builds one from pairs, \<open>getitem\<close> is subscription.
\<close>

type_synonym ('k, 'v) pydict = "('k \<times> 'v) list"

fun setitem :: "'k \<Rightarrow> 'v \<Rightarrow> ('k, 'v) pydict \<Rightarrow> ('k, 'v) pydict" where
  "setitem k v [] = [(k, v)]"
| "setitem k v (p # ps) = (if fst p = k then (k, v) # ps else p # setitem k v ps)"

definition dict :: "('k \<times> 'v) list \<Rightarrow> ('k, 'v) pydict" where
  "dict kvs = foldl (\<lambda>d (k, v). setitem k v d) [] kvs"

definition getitem :: "('k, 'v) pydict \<Rightarrow> 'k \<Rightarrow> error + 'v" where
  "getitem d k = (case map_of d k of None \<Rightarrow> Inl KeyError | Some v \<Rightarrow> Inr v)"

section \<open>The schema model\<close>

record ColumnInfo =
  name :: str
  dtype :: DataTypes

record TableInfo =
  columns :: "ColumnInfo list"

fun offsets_loop :: "nat \<Rightarrow> (str, nat) pydict \<Rightarrow> ColumnInfo list \<Rightarrow> (str, nat) pydict" where
  "offsets_loop offset offsets [] = offsets"
| "offsets_loop offset offsets (col # cols) =
     offsets_loop (offset + DATATYPE_LENGHTS (dtype col)) (setitem (name col) offset offsets) cols"

definition column_offsets :: "TableInfo \<Rightarrow> (str, nat) pydict" where
  "column_offsets table_info = offsets_loop 0 [] (columns table_info)"

definition columns_dict :: "TableInfo \<Rightarrow> (str, ColumnInfo) pydict" where
  "columns_dict table_info = dict (map (\<lambda>col. (name col, col)) (columns table_info))"

definition row_length :: "TableInfo \<Rightarrow> nat" where
  "row_length table_info = sum_list (map (\<lambda>col. DATATYPE_LENGHTS (dtype col)) (columns table_info))"


section \<open>The JSON form of a schema (\<open>model_dump_json\<close>, \<open>model_validate_json\<close>)\<close>

text \<open>
  The two \<open>pydantic\<close> methods that the header codec calls, for the model classes
  \<open>ColumnInfo\<close> and \<open>TableInfo\<close>.  \<open>model_dump_json(indent=None)\<close> writes the compact
  JSON text of the model, the fields in the order of their declaration; inside a string
  it escapes the quotation mark, the backslash and the control characters below
  \<open>0x20\<close>, and writes every other character as it is.  It converts each string to UTF-8
  first, so a name holding a lone surrogate is refused with a serialization error.
\<close>

definition ascii :: "string \<Rightarrow> str" where
  "ascii s = map of_char s"

definition hex_lower :: "nat \<Rightarrow> nat" where
  "hex_lower n = (if n < 10 then 0x30 + n else 0x57 + n)"

definition escape_char :: "nat \<Rightarrow> str" where
  "escape_char c =
     (if c = 0x22 then [0x5C, 0x22]
      else if c = 0x5C then [0x5C, 0x5C]
      else if c = 0x08 then [0x5C, 0x62]
      else if c = 0x09 then [0x5C, 0x74]
      else if c = 0x0A then [0x5C, 0x6E]
      else if c = 0x0C then [0x5C, 0x66]
      else if c = 0x0D then [0x5C, 0x72]
      else if c < 0x20 then [0x5C, 0x75, 0x30, 0x30, hex_lower (c div 16), hex_lower (c mod 16)]
      else [c])"

definition json_string :: "str \<Rightarrow> str" where
  "json_string s = 0x22 # concat (map escape_char s) @ [0x22]"

fun join :: "'a list \<Rightarrow> 'a list list \<Rightarrow> 'a list" where
  "join sep [] = []"
| "join sep [x] = x"
| "join sep (x # y # ys) = x @ sep @ join sep (y # ys)"

fun datatype_literal :: "DataTypes \<Rightarrow> str" where
  "datatype_literal STRING = ascii ''STRING''"
| "datatype_literal INTEGER = ascii ''INTEGER''"

definition column_json :: "ColumnInfo \<Rightarrow> str" where
  "column_json col =
     ascii ''{'' @ json_string (ascii ''name'') @ ascii '':'' @ json_string (name col)
     @ ascii '','' @ json_string (ascii ''datatype'') @ ascii '':''
     @ json_string (datatype_literal (dtype col)) @ ascii ''}''"

definition encodable :: "str \<Rightarrow> bool" where
  "encodable s = list_all (\<lambda>c. encode_char c \<noteq> None) s"

definition model_dump_json :: "TableInfo \<Rightarrow> error + str" where
  "model_dump_json table_info =
     (if list_all (\<lambda>col. encodable (name col)) (columns table_info)
      then Inr (ascii ''{'' @ json_string (ascii ''columns'') @ ascii '':[''
                @ join (ascii '','') (map column_json (columns table_info)) @ ascii '']}'')
      else Inl PydanticSerializationError)"

text \<open>
  \<open>model_validate_json\<close> reads UTF-8 bytes.  The reader below covers the JSON texts of
  the shape that \<open>model_dump_json\<close> writes (an object with the one key \<open>columns\<close>, its
  columns objects with the keys \<open>name\<close> and \<open>datatype\<close> in this order), with
  insignificant white space and every escape of a JSON string allowed; it reports every
  other text as a validation error.  First the tokens, then the schema.
\<close>

datatype token = LBrace | RBrace | LBracket | RBracket | Colon | Comma | TString str

definition hex_value :: "nat \<Rightarrow> nat option" where
  "hex_value c =
     (if 0x30 \<le> c \<and> c \<le> 0x39 then Some (c - 0x30)
      else if 0x61 \<le> c \<and> c \<le> 0x66 then Some (c - 0x57)
      else if 0x41 \<le> c \<and> c \<le> 0x46 then Some (c - 0x37)
      else None)"

definition hex4 :: "nat \<Rightarrow> nat \<Rightarrow> nat \<Rightarrow> nat \<Rightarrow> nat option" where
  "hex4 h1 h2 h3 h4 =
     (case (hex_value h1, hex_value h2, hex_value h3, hex_value h4) of
        (Some a, Some b, Some c, Some d) \<Rightarrow> Some (((a * 16 + b) * 16 + c) * 16 + d)
      | _ \<Rightarrow> None)"

definition unescape :: "nat \<Rightarrow> nat option" where
  "unescape e =
     (if e = 0x22 then Some 0x22
      else if e = 0x5C then Some 0x5C
      else if e = 0x2F then Some 0x2F
      else if e = 0x62 then Some 0x08
      else if e = 0x66 then Some 0x0C
      else if e = 0x6E then Some 0x0A
      else if e = 0x72 then Some 0x0D
      else if e = 0x74 then Some 0x09
      else None)"

definition punctuation :: "nat \<Rightarrow> token option" where
  "punctuation c =
     (if c = 0x7B then Some LBrace
      else if c = 0x7D then Some RBrace
      else if c = 0x5B then Some LBracket
      else if c = 0x5D then Some RBracket
      else if c = 0x3A then Some Colon
      else if c = 0x2C then Some Comma
      else None)"

definition is_space :: "nat \<Rightarrow> bool" where
  "is_space c \<longleftrightarrow> c = 0x20 \<or> c = 0x09 \<or> c = 0x0A \<or> c = 0x0D"

fun lex :: "str \<Rightarrow> token list option"
  and lex_string :: "str \<Rightarrow> str \<Rightarrow> token list option" where
  "lex [] = Some []"
| "lex (c # cs) =
     (if c = 0x22 then lex_string [] cs
      else if is_space c then lex cs
      else (case punctuation c of
              None \<Rightarrow> None
            | Some t \<Rightarrow> map_option ((#) t) (lex cs)))"
| "lex_string acc [] = None"
| "lex_string acc (c # cs) =
     (if c = 0x22 then map_option ((#) (TString acc)) (lex cs)
      else if c = 0x5C then
        (case cs of
           [] \<Rightarrow> None
         | e # es \<Rightarrow>
             if e = 0x75 then
               (case es of
                  h1 # h2 # h3 # h4 # r \<Rightarrow>
                    (case hex4 h1 h2 h3 h4 of
                       None \<Rightarrow> None
                     | Some v \<Rightarrow> if is_surrogate v then None else lex_string (acc @ [v]) r)
                | _ \<Rightarrow> None)
             else (case unescape e of
                     None \<Rightarrow> None
                   | Some v \<Rightarrow> lex_string (acc @ [v]) es))
      else if c < 0x20 then None
      else lex_string (acc @ [c]) cs)"

definition parse_datatype :: "str \<Rightarrow> DataTypes option" where
  "parse_datatype d =
     (if d = ascii ''STRING'' then Some STRING
      else if d = ascii ''INTEGER'' then Some INTEGER
      else None)"

definition parse_column :: "token list \<Rightarrow> ColumnInfo option" where
  "parse_column ts =
     (case ts of
        [LBrace, TString k1, Colon, TString n, Comma, TString k2, Colon, TString d, RBrace] \<Rightarrow>
          (if k1 = ascii ''name'' \<and> k2 = ascii ''datatype''
           then map_option (\<lambda>t. \<lparr>name = n, dtype = t\<rparr>) (parse_datatype d)
           else None)
      | _ \<Rightarrow> None)"

function parse_columns :: "token list \<Rightarrow> ColumnInfo list option" where
  "parse_columns ts =
     (case parse_column (take 9 ts) of
        None \<Rightarrow> None
      | Some col \<Rightarrow>
          (case drop 9 ts of
             [RBracket, RBrace] \<Rightarrow> Some [col]
           | Comma # rest \<Rightarrow> map_option ((#) col) (parse_columns rest)
           | _ \<Rightarrow> None))"
  by pat_completeness auto
termination
proof (relation "measure length")
  show "wf (measure length)" by simp
next
  fix ts :: "token list" and col :: ColumnInfo and t :: token and rest :: "token list"
  assume "drop 9 ts = t # rest"
  then have "length (drop 9 ts) = Suc (length rest)" by simp
  then show "(rest, ts) \<in> measure length" by simp
qed

definition parse_schema :: "token list \<Rightarrow> TableInfo option" where
  "parse_schema ts =
     (case ts of
        LBrace # TString k # Colon # LBracket # rest \<Rightarrow>
          (if k \<noteq> ascii ''columns'' then None
           else if rest = [RBracket, RBrace] then Some \<lparr>columns = []\<rparr>
           else map_option (\<lambda>cols. \<lparr>columns = cols\<rparr>) (parse_columns rest))
      | _ \<Rightarrow> None)"

definition model_validate_json :: "bytes \<Rightarrow> error + TableInfo" where
  "model_validate_json json_data =
     (case bytes_decode strict json_data of
        Inl e \<Rightarrow> Inl ValidationError
      | Inr decoded \<Rightarrow>
          (case lex decoded of
             None \<Rightarrow> Inl ValidationError
           | Some ts \<Rightarrow>
               (case parse_schema ts of
                  None \<Rightarrow> Inl ValidationError
                | Some table_info \<Rightarrow> Inr table_info)))"

section \<open>The header codec\<close>

definition serialize_header :: "TableInfo \<Rightarrow> error + bytes" where
  "serialize_header table_info =
     (case model_dump_json table_info of
        Inl e \<Rightarrow> Inl e
      | Inr as_string \<Rightarrow>
          if 0x0A \<in> set as_string then Inl RuntimeError
          else (case str_encode as_string of
                  Inl e \<Rightarrow> Inl e
                | Inr b \<Rightarrow> Inr (b @ [0x0A])))"

definition endswith :: "'a list \<Rightarrow> 'a list \<Rightarrow> bool" where
  "endswith xs suffix \<longleftrightarrow>
     length suffix \<le> length xs \<and> drop (length xs - length suffix) xs = suffix"

definition deserialize_header :: "bytes \<Rightarrow> error + TableInfo \<times> nat" where
  "deserialize_header serialized_header =
     (if \<not> endswith serialized_header [0x0A] then Inl AssertionError
      else (case model_validate_json (butlast serialized_header) of
              Inl e \<Rightarrow> Inl e
            | Inr table_info \<Rightarrow> Inr (table_info, length serialized_header)))"


section \<open>The row codec\<close>

fun serialize_columns :: "ColumnInfo list \<Rightarrow> (str, pyvalue) pydict \<Rightarrow> error + bytes" where
  "serialize_columns [] vals = Inr []"
| "serialize_columns (col # cols) vals =
     (case getitem vals (name col) of
        Inl e \<Rightarrow> Inl e
      | Inr v \<Rightarrow>
          (case serialize_value (dtype col) v of
             Inl e \<Rightarrow> Inl e
           | Inr b \<Rightarrow>
               (case serialize_columns cols vals of
                  Inl e \<Rightarrow> Inl e
                | Inr r \<Rightarrow> Inr (b @ r))))"

definition serialize_row :: "TableInfo \<Rightarrow> (str, pyvalue) pydict \<Rightarrow> error + bytes" where
  "serialize_row table_info vals =
     (case serialize_columns (columns table_info) vals of
        Inl e \<Rightarrow> Inl e
      | Inr serialized \<Rightarrow>
          if length serialized = row_length table_info then Inr serialized
          else Inl AssertionError)"

fun deserialize_columns ::
  "(str, nat) pydict \<Rightarrow> (str, ColumnInfo) pydict \<Rightarrow> nat \<Rightarrow> str list \<Rightarrow> IOBase
     \<Rightarrow> (error + pyvalue list) \<times> IOBase" where
  "deserialize_columns offsets as_dict row_start [] file_data = (Inr [], file_data)"
| "deserialize_columns offsets as_dict row_start (col # cols) file_data =
     (case getitem offsets col of
        Inl e \<Rightarrow> (Inl e, file_data)
      | Inr off \<Rightarrow>
          (let fd1 = seek (row_start + off) file_data
           in case getitem as_dict col of
                Inl e \<Rightarrow> (Inl e, fd1)
              | Inr ci \<Rightarrow>
                  (case deserialize_value (dtype ci) fd1 of
                     (Inl e, fd2) \<Rightarrow> (Inl e, fd2)
                   | (Inr v, fd2) \<Rightarrow>
                       (case deserialize_columns offsets as_dict row_start cols fd2 of
                          (Inl e, fd3) \<Rightarrow> (Inl e, fd3)
                        | (Inr vs, fd3) \<Rightarrow> (Inr (v # vs), fd3)))))"

definition deserialize_row ::
  "TableInfo \<Rightarrow> IOBase \<Rightarrow> nat \<Rightarrow> str list \<Rightarrow> (error + pyvalue list) \<times> IOBase" where
  "deserialize_row table_info file_data row_start cols =
     deserialize_columns (column_offsets table_info) (columns_dict table_info) row_start cols
       (seek row_start file_data)"

section \<open>File names (\<open>urllib.parse.quote_plus\<close>, \<open>unquote_plus\<close>)\<close>

definition always_safe :: "byte \<Rightarrow> bool" where
  "always_safe b \<longleftrightarrow>
     (let x = unat b
      in (0x41 \<le> x \<and> x \<le> 0x5A) \<or> (0x61 \<le> x \<and> x \<le> 0x7A) \<or> (0x30 \<le> x \<and> x \<le> 0x39)
         \<or> x = 0x5F \<or> x = 0x2E \<or> x = 0x2D \<or> x = 0x7E)"

definition hex_upper :: "nat \<Rightarrow> nat" where
  "hex_upper n = (if n < 10 then 0x30 + n else 0x37 + n)"

definition quote_byte :: "byte \<Rightarrow> str" where
  "quote_byte b =
     (if always_safe b then [unat b]
      else if b = 0x20 then [0x2B]
      else [0x25, hex_upper (unat b div 16), hex_upper (unat b mod 16)])"

definition quote_plus :: "str \<Rightarrow> error + str" where
  "quote_plus string =
     (case str_encode string of
        Inl e \<Rightarrow> Inl e
      | Inr bs \<Rightarrow> Inr (concat (map quote_byte bs)))"

text \<open>
  \<open>unquote_plus\<close> turns every \<open>+\<close> into a space and returns a text without \<open>%\<close> as it
  is; otherwise each run of ASCII characters has its \<open>%XX\<close> escapes replaced by bytes
  and is decoded as UTF-8 with the \<open>replace\<close> error handler, and the characters outside
  ASCII stay as they are.
\<close>

fun unquote_to_bytes :: "str \<Rightarrow> bytes" where
  "unquote_to_bytes [] = []"
| "unquote_to_bytes (c # cs) =
     (if c = 0x25 then
        (case cs of
           h1 # h2 # r \<Rightarrow>
             (case (hex_value h1, hex_value h2) of
                (Some a, Some b) \<Rightarrow> of_nat (a * 16 + b) # unquote_to_bytes r
              | _ \<Rightarrow> 0x25 # unquote_to_bytes cs)
         | _ \<Rightarrow> 0x25 # unquote_to_bytes cs)
      else of_nat c # unquote_to_bytes cs)"

definition unquote_run :: "str \<Rightarrow> error + str" where
  "unquote_run run = bytes_decode replace (unquote_to_bytes run)"

fun unquote_parts :: "str \<Rightarrow> str \<Rightarrow> error + str" where
  "unquote_parts run [] = unquote_run run"
| "unquote_parts run (c # cs) =
     (if c < 0x80 then unquote_parts (run @ [c]) cs
      else (case unquote_run run of
              Inl e \<Rightarrow> Inl e
            | Inr s \<Rightarrow>
                (case unquote_parts [] cs of
                   Inl e \<Rightarrow> Inl e
                 | Inr r \<Rightarrow> Inr (s @ c # r))))"

definition unquote_plus :: "str \<Rightarrow> error + str" where
  "unquote_plus string =
     (let spaced = map (\<lambda>c. if c = 0x2B then 0x20 else c) string
      in if 0x25 \<notin> set spaced then Inr spaced else unquote_parts [] spaced)"

section \<open>The directory of the tables\<close>

text \<open>
  The state of the file system is the content of the caller's directory: its regular
  files by name.  The directory exists and can be written, and space, the length of a
  file name and permissions are not limited.  A path is the directory joined with one
  segment: \<open>pathlib\<close> drops an empty segment and the segment \<open>.\<close>, which leaves the
  directory itself, and the segment \<open>..\<close> names the parent directory.
\<close>

type_synonym directory = "str \<rightharpoonup> bytes"

datatype path = This | Parent | Entry str

definition joinpath :: "str \<Rightarrow> path" where
  "joinpath segment =
     (if segment = [] \<or> segment = ascii ''.'' then This
      else if segment = ascii ''..'' then Parent
      else Entry segment)"

definition exists_path :: "directory \<Rightarrow> path \<Rightarrow> bool" where
  "exists_path fs p = (case p of Entry f \<Rightarrow> fs f \<noteq> None | _ \<Rightarrow> True)"

definition write_bytes :: "directory \<Rightarrow> path \<Rightarrow> bytes \<Rightarrow> error + directory" where
  "write_bytes fs p content =
     (case p of Entry f \<Rightarrow> Inr (fs(f \<mapsto> content)) | _ \<Rightarrow> Inl IsADirectoryError)"

definition open_rb :: "directory \<Rightarrow> str \<Rightarrow> error + IOBase" where
  "open_rb fs f =
     (case fs f of None \<Rightarrow> Inl FileNotFoundError | Some content \<Rightarrow> Inr (BytesIO content))"

definition open_ab :: "directory \<Rightarrow> str \<Rightarrow> directory" where
  "open_ab fs f = (case fs f of None \<Rightarrow> fs(f \<mapsto> []) | Some content \<Rightarrow> fs)"

definition write_end :: "directory \<Rightarrow> str \<Rightarrow> bytes \<Rightarrow> directory" where
  "write_end fs f b = (case fs f of None \<Rightarrow> fs | Some content \<Rightarrow> fs(f \<mapsto> content @ b))"

definition st_size :: "directory \<Rightarrow> str \<Rightarrow> error + nat" where
  "st_size fs f =
     (case fs f of None \<Rightarrow> Inl FileNotFoundError | Some content \<Rightarrow> Inr (length content))"

definition readline :: "IOBase \<Rightarrow> bytes \<times> IOBase" where
  "readline fd =
     (let rest = drop (pos fd) (buf fd);
          line = takeWhile (\<lambda>b. b \<noteq> 0x0A) rest;
          out = (if length line < length rest then line @ [0x0A] else line)
      in (out, fd\<lparr>pos := pos fd + length out\<rparr>))"

section \<open>Tables\<close>

definition MAX_TABLE_NAME_LENGTH :: nat where
  "MAX_TABLE_NAME_LENGTH = 255"

text \<open>
  A handle holds the name of its file in the directory.  \<open>Table.__init__\<close> on the
  directory itself or on its parent fails when it opens the path for reading, so no
  handle has such a location.
\<close>

record Table =
  location :: str
  table_name :: str
  info :: TableInfo
  data_start :: nat

definition Table_init :: "directory \<Rightarrow> path \<Rightarrow> error + Table" where
  "Table_init fs loc =
     (case loc of
        Entry f \<Rightarrow>
          (case unquote_plus f of
             Inl e \<Rightarrow> Inl e
           | Inr nm \<Rightarrow>
               (case open_rb fs f of
                  Inl e \<Rightarrow> Inl e
                | Inr file \<Rightarrow>
                    (case deserialize_header (fst (readline file)) of
                       Inl e \<Rightarrow> Inl e
                     | Inr (table_info, start) \<Rightarrow>
                         Inr \<lparr>location = f, table_name = nm, info = table_info,
                              data_start = start\<rparr>)))
      | _ \<Rightarrow> Inl IsADirectoryError)"

definition Table_create :: "str \<Rightarrow> TableInfo \<Rightarrow> directory \<Rightarrow> (error + Table) \<times> directory" where
  "Table_create nm table_info fs =
     (if length nm > MAX_TABLE_NAME_LENGTH then (Inl ValueError, fs)
      else (case quote_plus nm of
              Inl e \<Rightarrow> (Inl e, fs)
            | Inr quoted \<Rightarrow>
                (let table_location = joinpath quoted
                 in if exists_path fs table_location then (Inl FileExistsError, fs)
                    else (case serialize_header table_info of
                            Inl e \<Rightarrow> (Inl e, fs)
                          | Inr header \<Rightarrow>
                              (case write_bytes fs table_location header of
                                 Inl e \<Rightarrow> (Inl e, fs)
                               | Inr fs' \<Rightarrow> (Table_init fs' table_location, fs'))))))"

definition Table_insert ::
  "Table \<Rightarrow> (str \<times> pyvalue) list \<Rightarrow> directory \<Rightarrow> (error + unit) \<times> directory" where
  "Table_insert self inserted fs =
     (let inserted_column_names = set (map fst inserted);
          table_columns = set (map name (columns (info self)));
          extra_columns = inserted_column_names - table_columns;
          missing_columns = table_columns - inserted_column_names
      in if extra_columns \<noteq> {} then (Inl (ColumnDoesNotExist extra_columns), fs)
         else if missing_columns \<noteq> {} then (Inl NotImplementedError, fs)
         else (let fs1 = open_ab fs (location self)
               in case serialize_row (info self) (dict inserted) of
                    Inl e \<Rightarrow> (Inl e, fs1)
                  | Inr serialized \<Rightarrow> (Inr (), write_end fs1 (location self) serialized)))"

definition Table_length :: "Table \<Rightarrow> directory \<Rightarrow> error + int" where
  "Table_length self fs =
     (case st_size fs (location self) of
        Inl e \<Rightarrow> Inl e
      | Inr file_size \<Rightarrow>
          (let total_data = int file_size - int (data_start self)
           in if row_length (info self) = 0 then Inl ZeroDivisionError
              else Inr (total_data div int (row_length (info self)))))"

text \<open>
  The scan of \<open>query\<close>: one record per row number, the \<open>dict\<close> of the requested columns
  zipped (strictly) with the values read.  The data frame returned is the list of its
  records.
\<close>

fun query_rows ::
  "Table \<Rightarrow> str list \<Rightarrow> nat list \<Rightarrow> IOBase \<Rightarrow> error + (str, pyvalue) pydict list" where
  "query_rows self cols [] file = Inr []"
| "query_rows self cols (row_num # row_nums) file =
     (case deserialize_row (info self) file
             (data_start self + row_num * row_length (info self)) cols of
        (Inl e, file1) \<Rightarrow> Inl e
      | (Inr vals, file1) \<Rightarrow>
          if length vals \<noteq> length cols then Inl ValueError
          else (case query_rows self cols row_nums file1 of
                  Inl e \<Rightarrow> Inl e
                | Inr rows \<Rightarrow> Inr (dict (zip cols vals) # rows)))"

definition Table_query ::
  "Table \<Rightarrow> str list \<Rightarrow> directory \<Rightarrow> error + (str, pyvalue) pydict list" where
  "Table_query self cols fs =
     (let table_columns = set (map name (columns (info self)));
          extra_columns = set cols - table_columns
      in if extra_columns \<noteq> {} then Inl (ColumnDoesNotExist extra_columns)
         else (case open_rb fs (location self) of
                 Inl e \<Rightarrow> Inl e
               | Inr file0 \<Rightarrow>
                   (case Table_length self fs of
                      Inl e \<Rightarrow> Inl e
                    | Inr n \<Rightarrow>
                        (case query_rows self cols [0..<nat n] (seek (data_start self) file0) of
                           Inl e \<Rightarrow> Inl e
                         | Inr rows \<Rightarrow>
                             if int (length rows) = n then Inr rows else Inl AssertionError))))"


section \<open>Vocabulary of the properties\<close>

text \<open>
  A value is in range for a datatype when it is a string whose UTF-8 form has at most
  16 bytes, for \<open>STRING\<close>, or an integer of the signed 64-bit range, for \<open>INTEGER\<close>.
  \<open>leading_nul\<close> holds for a string whose UTF-8 form begins with the byte \<open>0x00\<close>.
  \<open>stored\<close> is what a slot gives back for a value: a string without its leading
  \<open>U+0000\<close> characters, an integer as it is.
\<close>

definition in_range :: "DataTypes \<Rightarrow> pyvalue \<Rightarrow> bool" where
  "in_range dt v =
     (case (dt, v) of
        (STRING, PyStr s) \<Rightarrow> (case str_encode s of Inl e \<Rightarrow> False | Inr b \<Rightarrow> length b \<le> 16)
      | (INTEGER, PyInt i) \<Rightarrow> - (2 ^ 63) \<le> i \<and> i < 2 ^ 63
      | _ \<Rightarrow> False)"

definition leading_nul :: "pyvalue \<Rightarrow> bool" where
  "leading_nul v =
     (case v of
        PyStr s \<Rightarrow> (case str_encode s of Inr (b # bs) \<Rightarrow> b = 0 | _ \<Rightarrow> False)
      | _ \<Rightarrow> False)"

fun stored :: "pyvalue \<Rightarrow> pyvalue" where
  "stored (PyStr s) = PyStr (dropWhile (\<lambda>c. c = 0) s)"
| "stored v = v"

text \<open>
  A caller that inserts rows one after the other and stops at the first failure; the
  value that the pairs of a row give a column (the last one, as in the \<open>dict\<close> that
  \<open>insert\<close> builds), and the record that a query has to return for a row.
\<close>

fun insert_all ::
  "Table \<Rightarrow> (str \<times> pyvalue) list list \<Rightarrow> directory \<Rightarrow> (error + unit) \<times> directory" where
  "insert_all self [] fs = (Inr (), fs)"
| "insert_all self (row # rows) fs =
     (case Table_insert self row fs of
        (Inl e, fs1) \<Rightarrow> (Inl e, fs1)
      | (Inr u, fs1) \<Rightarrow> insert_all self rows fs1)"

definition inserted_value :: "(str \<times> pyvalue) list \<Rightarrow> str \<Rightarrow> pyvalue" where
  "inserted_value row c = (case getitem (dict row) c of Inl e \<Rightarrow> PyOther | Inr v \<Rightarrow> v)"

definition stored_record :: "str list \<Rightarrow> (str \<times> pyvalue) list \<Rightarrow> (str, pyvalue) pydict" where
  "stored_record cols row = dict (map (\<lambda>c. (c, stored (inserted_value row c))) cols)"

definition inserted_record :: "str list \<Rightarrow> (str \<times> pyvalue) list \<Rightarrow> (str, pyvalue) pydict" where
  "inserted_record cols row = dict (map (\<lambda>c. (c, inserted_value row c)) cols)"

text \<open>The offset of a column: the widths of the columns before it.\<close>

fun offset_in :: "ColumnInfo list \<Rightarrow> str \<Rightarrow> nat option" where
  "offset_in [] nm = None"
| "offset_in (col # cols) nm =
     (if name col = nm then Some 0
      else map_option ((+) (DATATYPE_LENGHTS (dtype col))) (offset_in cols nm))"

text \<open>The tokens of the JSON text of a column.\<close>

definition column_tokens :: "ColumnInfo \<Rightarrow> token list" where
  "column_tokens col =
     [LBrace, TString (ascii ''name''), Colon, TString (name col), Comma,
      TString (ascii ''datatype''), Colon, TString (datatype_literal (dtype col)), RBrace]"

text \<open>The unsigned big-endian number of a byte string.\<close>

definition be_value :: "bytes \<Rightarrow> int" where
  "be_value bs = foldl (\<lambda>acc b. acc * 256 + uint b) 0 bs"



definition file_bytes :: "directory \<Rightarrow> str \<Rightarrow> bytes" where
  "file_bytes fs f = (case fs f of None \<Rightarrow> [] | Some content \<Rightarrow> content)"

section \<open>The example of the specification\<close>

text \<open>
  The table \<open>people\<close> with the columns \<open>name: STRING\<close> and \<open>age: INTEGER\<close>, the JSON text
  of its schema, its header, and the directory and the handle that \<open>create\<close> gives for
  it in an empty directory.
\<close>

definition people :: TableInfo where
  "people = \<lparr>columns = [\<lparr>name = ascii ''name'', dtype = STRING\<rparr>,
                         \<lparr>name = ascii ''age'', dtype = INTEGER\<rparr>]\<rparr>"

definition people_json :: str where
  "people_json =
    [123, 34, 99, 111, 108, 117, 109, 110, 115, 34, 58, 91, 123, 34, 110, 97, 109, 101,
     34, 58, 34, 110, 97, 109, 101, 34, 44, 34, 100, 97, 116, 97, 116, 121, 112, 101,
     34, 58, 34, 83, 84, 82, 73, 78, 71, 34, 125, 44, 123, 34, 110, 97, 109, 101, 34,
     58, 34, 97, 103, 101, 34, 44, 34, 100, 97, 116, 97, 116, 121, 112, 101, 34, 58,
     34, 73, 78, 84, 69, 71, 69, 82, 34, 125, 93, 125]"

definition people_header :: bytes where
  "people_header = map of_nat people_json @ [0x0A]"

definition people_dir :: directory where
  "people_dir = Map.empty(ascii ''people'' \<mapsto> people_header)"

definition people_table :: Table where
  "people_table = \<lparr>location = ascii ''people'', table_name = ascii ''people'',
                    info = people, data_start = 86\<rparr>"

text \<open>Rows for it: one with an unknown column, one without \<open>age\<close>, a good one, and one
  whose name is too long for its slot.\<close>

definition spam_foo :: "(str \<times> pyvalue) list" where
  "spam_foo = [(ascii ''name'', PyStr (ascii ''Spam'')), (ascii ''foo'', PyInt 18)]"




section \<open>The UTF-8 codec decodes what it encodes\<close>

lemma unat_byte: "n < 256 \<Longrightarrow> unat (of_nat n :: byte) = n"
  by (simp add: unat_of_nat take_bit_nat_eq_self)

lemma unat_lead:
  "x < 64 \<Longrightarrow> unat (128 + word_of_nat x :: byte) = 128 + x"
  "x < 32 \<Longrightarrow> unat (192 + word_of_nat x :: byte) = 192 + x"
  "x < 16 \<Longrightarrow> unat (224 + word_of_nat x :: byte) = 224 + x"
  "x < 8 \<Longrightarrow> unat (240 + word_of_nat x :: byte) = 240 + x"
  using unat_byte [of "128 + x"] unat_byte [of "192 + x"] unat_byte [of "224 + x"]
    unat_byte [of "240 + x"]
  by simp_all

lemma digits3:
  fixes c :: nat
  obtains a b d where "c = a * 4096 + b * 64 + d" "b < 64" "d < 64"
    "c div 4096 = a" "c div 64 mod 64 = b" "c mod 64 = d"
proof -
  have "c div 4096 = c div 64 div 64"
    using div_mult2_eq [of c 64 64] by simp
  moreover have "c = c div 64 * 64 + c mod 64" by simp
  moreover have "c div 64 = c div 64 div 64 * 64 + c div 64 mod 64" by simp
  ultimately have "c = c div 4096 * 4096 + c div 64 mod 64 * 64 + c mod 64"
    by linarith
  then show thesis using that [of "c div 4096" "c div 64 mod 64" "c mod 64"] by simp
qed

lemma digits4:
  fixes c :: nat
  obtains a b d e where "c = a * 262144 + b * 4096 + d * 64 + e" "b < 64" "d < 64" "e < 64"
    "c div 262144 = a" "c div 4096 mod 64 = b" "c div 64 mod 64 = d" "c mod 64 = e"
proof -
  have "c div 262144 = c div 4096 div 64"
    using div_mult2_eq [of c 4096 64] by simp
  moreover have "c div 4096 = c div 4096 div 64 * 64 + c div 4096 mod 64" by simp
  moreover obtain a b d where "c = a * 4096 + b * 64 + d" "b < 64" "d < 64"
    "c div 4096 = a" "c div 64 mod 64 = b" "c mod 64 = d" by (rule digits3)
  ultimately have "c = c div 262144 * 262144 + c div 4096 mod 64 * 4096 + c div 64 mod 64 * 64 + c mod 64"
    by linarith
  then show thesis
    using that [of "c div 262144" "c div 4096 mod 64" "c div 64 mod 64" "c mod 64"] by simp
qed

lemma decode_step_1:
  assumes "c < 0x80"
  shows "decode_step (of_nat c) rest = Scalar c 1"
  using assms by (simp add: decode_step_def unat_byte)

lemma decode_step_2:
  assumes "0x80 \<le> c" "c < 0x800"
  shows "decode_step (of_nat (0xC0 + c div 64)) (of_nat (0x80 + c mod 64) # rest) = Scalar c 2"
proof -
  have a: "c div 64 < 32" "2 \<le> c div 64" using assms by auto
  have b: "c mod 64 < 64" by simp
  show ?thesis
    using a by (simp add: decode_step_def unat_lead cont_def)
qed

lemma decode_step_3:
  assumes "0x800 \<le> c" "c < 0x10000" "\<not> is_surrogate c"
  shows "decode_step (of_nat (0xE0 + c div 4096))
           (of_nat (0x80 + c div 64 mod 64) # of_nat (0x80 + c mod 64) # rest) = Scalar c 3"
proof -
  obtain a b d where c: "c = a * 4096 + b * 64 + d" "b < 64" "d < 64"
    and e: "c div 4096 = a" "c div 64 mod 64 = b" "c mod 64 = d" by (rule digits3)
  have a: "a < 16" using assms c by linarith
  have e0: "a = 0 \<Longrightarrow> 32 \<le> b" using assms c by linarith
  have ed: "a = 13 \<longrightarrow> b \<le> 31"
    using assms c unfolding is_surrogate_def by linarith
  show ?thesis
    unfolding e using a e0 ed c
    by (simp add: decode_step_def Let_def unat_lead cont_def second_ok_def)
qed

lemma decode_step_4:
  assumes "0x10000 \<le> c" "c < 0x110000"
  shows "decode_step (of_nat (0xF0 + c div 262144))
           (of_nat (0x80 + c div 4096 mod 64) # of_nat (0x80 + c div 64 mod 64)
              # of_nat (0x80 + c mod 64) # rest) = Scalar c 4"
proof -
  obtain a b d e where c: "c = a * 262144 + b * 4096 + d * 64 + e" "b < 64" "d < 64" "e < 64"
    and e: "c div 262144 = a" "c div 4096 mod 64 = b" "c div 64 mod 64 = d" "c mod 64 = e"
    by (rule digits4)
  have a: "a < 5" using assms c by linarith
  have f0: "a = 0 \<Longrightarrow> 16 \<le> b" using assms c by linarith
  have f4: "a = 4 \<longrightarrow> b \<le> 15" using assms c by linarith
  show ?thesis
    unfolding e using a f0 f4 c
    by (simp add: decode_step_def Let_def unat_lead cont_def second_ok_def)
qed

lemma bytes_decode_encode_char:
  assumes "encode_char c = Some bs"
  shows "bytes_decode m (bs @ rest) =
           (case bytes_decode m rest of Inl e \<Rightarrow> Inl e | Inr r \<Rightarrow> Inr (c # r))"
proof -
  consider (1) "c < 0x80" | (2) "0x80 \<le> c" "c < 0x800"
    | (3) "0x800 \<le> c" "c < 0x10000" "\<not> is_surrogate c"
    | (4) "0x10000 \<le> c" "c < 0x110000"
    using assms by (auto simp: encode_char_def split: if_splits)
  then show ?thesis
  proof cases
    case 1
    then have "bs = [of_nat c]" using assms by (simp add: encode_char_def)
    then show ?thesis using decode_step_1 [OF 1] by simp
  next
    case 2
    then have "bs = [of_nat (0xC0 + c div 64), of_nat (0x80 + c mod 64)]"
      using assms by (simp add: encode_char_def)
    then show ?thesis using decode_step_2 [OF 2] by simp
  next
    case 3
    then have "bs = [of_nat (0xE0 + c div 4096), of_nat (0x80 + c div 64 mod 64),
              of_nat (0x80 + c mod 64)]"
      using assms by (simp add: encode_char_def)
    then show ?thesis using decode_step_3 [OF 3] by simp
  next
    case 4
    then have "\<not> is_surrogate c" by (simp add: is_surrogate_def)
    with 4 have "bs = [of_nat (0xF0 + c div 262144), of_nat (0x80 + c div 4096 mod 64),
              of_nat (0x80 + c div 64 mod 64), of_nat (0x80 + c mod 64)]"
      using assms by (simp add: encode_char_def)
    then show ?thesis using decode_step_4 [OF 4] by simp
  qed
qed

lemma bytes_decode_str_encode:
  "str_encode s = Inr bs \<Longrightarrow> bytes_decode m bs = Inr s"
proof (induction s arbitrary: bs)
  case Nil
  then show ?case by simp
next
  case (Cons c cs)
  then obtain b r where b: "encode_char c = Some b" and r: "str_encode cs = Inr r"
    and bs: "bs = b @ r"
    by (auto split: option.splits sum.splits)
  show ?case
    using Cons.IH [OF r] by (simp add: bs bytes_decode_encode_char [OF b])
qed

section \<open>The integer codec decodes what it encodes\<close>


lemma foldl_be_shift:
  "foldl (\<lambda>acc b. acc * 256 + uint b) a bs = a * 256 ^ length bs + be_value bs"
proof (induction bs arbitrary: a)
  case Nil
  then show ?case by (simp add: be_value_def)
next
  case (Cons b bs)
  have "foldl (\<lambda>acc b. acc * 256 + uint b) a (b # bs)
        = (a * 256 + uint b) * 256 ^ length bs + be_value bs"
    using Cons.IH [of "a * 256 + uint b"] by simp
  moreover have "be_value (b # bs) = uint b * 256 ^ length bs + be_value bs"
    using Cons.IH [of "uint b"] by (simp add: be_value_def)
  ultimately show ?case by (simp add: algebra_simps)
qed

lemma be_value_Cons: "be_value (b # bs) = uint b * 256 ^ length bs + be_value bs"
  using foldl_be_shift [of "uint b" bs] by (simp add: be_value_def)

lemma map_descending:
  "map (\<lambda>i. h (n - 1 - i)) [0..<n] = rev (map h [0..<n])"
  by (rule nth_equalityI) (simp_all add: rev_nth)

lemma uint_byte_of_int: "uint (of_int k :: byte) = k mod 256"
  by (simp add: uint_word_of_int take_bit_eq_mod)

lemma be_value_digits:
  "be_value (rev (map (\<lambda>k. of_int (v div 256 ^ k)) [0..<n])) = v mod 256 ^ n"
proof (induction n)
  case 0
  then show ?case by (simp add: be_value_def)
next
  case (Suc n)
  have "v mod (256 ^ n * 256) = 256 ^ n * (v div 256 ^ n mod 256) + v mod 256 ^ n"
    by (rule zmod_zmult2_eq) simp
  then show ?case
    using Suc by (simp add: be_value_Cons uint_byte_of_int mult.commute)
qed

lemma length_to_bytes: "to_bytes n v = Inr bs \<Longrightarrow> length bs = n"
  by (auto simp: to_bytes_def split: if_splits)

lemma from_bytes_to_bytes:
  assumes "to_bytes n v = Inr bs"
  shows "from_bytes bs = v"
proof -
  have rng: "- (2 ^ (8 * n)) \<le> 2 * v" "2 * v < 2 ^ (8 * n)"
    and bs: "bs = map (\<lambda>i. of_int (v div 256 ^ (n - 1 - i))) [0..<n]"
    using assms by (auto simp: to_bytes_def split: if_splits)
  have len: "length bs = n" by (simp add: bs)
  have p: "(256::int) ^ n = 2 ^ (8 * n)"
    by (simp add: power_mult)
  have u: "be_value bs = v mod 2 ^ (8 * n)"
    using be_value_digits [of v n] map_descending [of "\<lambda>k. of_int (v div 256 ^ k) :: byte" n]
    by (simp add: bs p)
  show ?thesis
  proof (cases "0 \<le> v")
    case True
    then have "v mod 2 ^ (8 * n) = v" using rng by simp
    then show ?thesis using rng u by (simp add: from_bytes_def be_value_def [symmetric] len)
  next
    case False
    then have "0 \<le> v + 2 ^ (8 * n)" "v + 2 ^ (8 * n) < 2 ^ (8 * n)"
      using rng by linarith+
    then have "(v + 2 ^ (8 * n)) mod 2 ^ (8 * n) = v + 2 ^ (8 * n)"
      by (rule mod_pos_pos_trivial)
    then have "v mod 2 ^ (8 * n) = v + 2 ^ (8 * n)"
      by simp
    then show ?thesis using rng u by (simp add: from_bytes_def be_value_def [symmetric] len)
  qed
qed

section \<open>The value codec\<close>

lemma encode_char_zero: "encode_char 0 = Some [0]"
  by (simp add: encode_char_def)

lemma encode_char_first:
  assumes "encode_char c = Some bs" "c \<noteq> 0"
  shows "\<exists>b r. bs = b # r \<and> b \<noteq> 0"
proof -
  have z: "\<And>x. unat (x :: byte) \<noteq> 0 \<Longrightarrow> x \<noteq> 0" by auto
  consider (1) "c < 0x80" | (2) "0x80 \<le> c" "c < 0x800"
    | (3) "0x800 \<le> c" "c < 0x10000" "\<not> is_surrogate c"
    | (4) "0x10000 \<le> c" "c < 0x110000"
    using assms by (auto simp: encode_char_def split: if_splits)
  then show ?thesis
  proof cases
    case 1
    then have "unat (of_nat c :: byte) = c" by (simp add: unat_byte)
    then have "(of_nat c :: byte) \<noteq> 0" using assms(2) z by metis
    then show ?thesis using 1 assms by (auto simp add: encode_char_def)
  next
    case 2
    then have "c div 64 < 32" by auto
    then have "unat (192 + word_of_nat (c div 64) :: byte) \<noteq> 0" by (simp add: unat_lead)
    then have "(192 + word_of_nat (c div 64) :: byte) \<noteq> 0" by (rule z)
    then show ?thesis using 2 assms by (auto simp add: encode_char_def)
  next
    case 3
    then have "c div 4096 < 16" by auto
    then have "unat (224 + word_of_nat (c div 4096) :: byte) \<noteq> 0" by (simp add: unat_lead)
    then have "(224 + word_of_nat (c div 4096) :: byte) \<noteq> 0" by (rule z)
    then show ?thesis using 3 assms by (auto simp add: encode_char_def)
  next
    case 4
    then have "c div 262144 < 8" by auto
    then have "unat (240 + word_of_nat (c div 262144) :: byte) \<noteq> 0" by (simp add: unat_lead)
    then have "(240 + word_of_nat (c div 262144) :: byte) \<noteq> 0" by (rule z)
    moreover have "\<not> is_surrogate c" using 4 by (simp add: is_surrogate_def)
    ultimately show ?thesis using 4 assms by (auto simp add: encode_char_def)
  qed
qed

lemma str_encode_lstrip:
  "str_encode s = Inr b \<Longrightarrow> str_encode (dropWhile (\<lambda>c. c = 0) s) = Inr (lstrip 0 b)"
proof (induction s arbitrary: b)
  case Nil
  then show ?case by (simp add: lstrip_def)
next
  case (Cons c cs)
  then obtain bc r where bc: "encode_char c = Some bc" and r: "str_encode cs = Inr r"
    and b: "b = bc @ r"
    by (auto split: option.splits sum.splits)
  show ?case
  proof (cases "c = 0")
    case True
    then have "bc = [0]" using bc by (simp add: encode_char_zero)
    then show ?thesis using Cons.IH [OF r] True by (simp add: b lstrip_def)
  next
    case False
    then obtain x t where "bc = x # t" "x \<noteq> 0" using encode_char_first [OF bc] by blast
    then show ?thesis using False Cons.prems by (simp add: b lstrip_def)
  qed
qed

lemma lstrip_left_pad: "lstrip 0 (left_pad b n) = lstrip 0 b"
  by (simp add: lstrip_def left_pad_def dropWhile_append)

lemma read_at:
  "length slot = n \<Longrightarrow> fst (read n \<lparr>buf = pre @ slot @ post, pos = length pre\<rparr>) = slot"
  by (simp add: read_def Let_def)

lemma serialize_value_STRING:
  assumes "str_encode s = Inr b"
  shows "serialize_value STRING (PyStr s) =
           (if length b \<le> 16 then Inr (left_pad b 16) else Inl AssertionError)"
  using assms by (auto simp: serialize_value_def left_pad_def)

lemma serialize_value_INTEGER:
  "serialize_value INTEGER (PyInt i) = to_bytes 8 i"
  by (auto simp: serialize_value_def dest: length_to_bytes split: sum.splits)

lemma in_range_serialize:
  assumes "in_range dt v"
  shows "\<exists>slot. serialize_value dt v = Inr slot"
proof (cases dt)
  case STRING
  then obtain s b where "v = PyStr s" "str_encode s = Inr b" "length b \<le> 16"
    using assms by (auto simp: in_range_def split: pyvalue.splits sum.splits)
  then show ?thesis using STRING by (simp add: serialize_value_STRING)
next
  case INTEGER
  then obtain i where "v = PyInt i" "- (2 ^ 63) \<le> i" "i < 2 ^ 63"
    using assms by (auto simp: in_range_def split: pyvalue.splits)
  then show ?thesis using INTEGER by (simp add: serialize_value_INTEGER to_bytes_def)
qed

lemma serialize_value_length:
  "serialize_value dt v = Inr slot \<Longrightarrow> length slot = DATATYPE_LENGHTS dt"
  by (auto simp: serialize_value_def split: sum.splits if_splits)

lemma decode_slot:
  assumes "serialize_value dt v = Inr slot"
  shows "(case dt of
            STRING \<Rightarrow> (case bytes_decode strict (lstrip 0 slot) of
                 Inl e \<Rightarrow> Inl e | Inr s \<Rightarrow> Inr (PyStr s))
          | INTEGER \<Rightarrow> Inr (PyInt (from_bytes slot))) = Inr (stored v)"
proof (cases dt)
  case STRING
  then obtain s b where v: "v = PyStr s" and b: "str_encode s = Inr b"
    using assms by (auto simp: serialize_value_def split: pyvalue.splits sum.splits)
  then have slot: "slot = left_pad b 16"
    using assms STRING by (simp add: serialize_value_STRING split: if_splits)
  have "bytes_decode strict (lstrip 0 b) = Inr (dropWhile (\<lambda>c. c = 0) s)"
    using str_encode_lstrip [OF b] by (rule bytes_decode_str_encode)
  then show ?thesis by (simp add: STRING v slot lstrip_left_pad)
next
  case INTEGER
  then obtain i where v: "v = PyInt i"
    using assms by (auto simp: serialize_value_def split: pyvalue.splits)
  then have "to_bytes 8 i = Inr slot" using assms INTEGER by (simp add: serialize_value_INTEGER)
  then show ?thesis by (simp add: INTEGER v from_bytes_to_bytes)
qed

lemma deserialize_value_at:
  assumes "serialize_value dt v = Inr slot"
  shows "fst (deserialize_value dt \<lparr>buf = pre @ slot @ post, pos = length pre\<rparr>) = Inr (stored v)"
proof -
  have "fst (read (DATATYPE_LENGHTS dt) \<lparr>buf = pre @ slot @ post, pos = length pre\<rparr>) = slot"
    using serialize_value_length [OF assms] by (rule read_at)
  then show ?thesis
    using decode_slot [OF assms]
    by (cases dt) (simp_all add: deserialize_value_def split_beta Let_def)
qed

lemma stored_id:
  assumes "\<not> leading_nul v" "in_range dt v"
  shows "stored v = v"
proof (cases v)
  case (PyStr s)
  show ?thesis
  proof (cases s)
    case Nil
    then show ?thesis using PyStr by simp
  next
    case (Cons c cs)
    then obtain bc r where bc: "encode_char c = Some bc" and r: "str_encode cs = Inr r"
      using assms(2) PyStr
      by (auto simp: in_range_def split: DataTypes.splits option.splits sum.splits)
    have "c \<noteq> 0"
      using assms(1) PyStr Cons bc r
      by (cases "c = 0") (auto simp: leading_nul_def encode_char_zero)
    then show ?thesis using PyStr Cons by simp
  qed
qed simp_all

text \<open>
  Claim C1.  For every datatype and every value in range for it (a string whose UTF-8
  form has at most 16 bytes, an integer of the signed 64-bit range), \<open>_serialize_value\<close>
  returns a slot and \<open>_deserialize_value\<close> reads the value back from it: always for
  \<open>INTEGER\<close>, and for \<open>STRING\<close> whenever the UTF-8 form does not begin with the byte
  \<open>0x00\<close>.
\<close>

theorem value_codec_roundtrip:
  assumes "in_range dt v" and "\<not> leading_nul v"
  shows "\<exists>slot. serialize_value dt v = Inr slot
           \<and> fst (deserialize_value dt (BytesIO slot)) = Inr v"
proof -
  obtain slot where s: "serialize_value dt v = Inr slot"
    using in_range_serialize [OF assms(1)] by blast
  have "fst (deserialize_value dt \<lparr>buf = [] @ slot @ [], pos = length ([] :: bytes)\<rparr>)
          = Inr (stored v)"
    by (rule deserialize_value_at [OF s])
  then show ?thesis using s stored_id [OF assms(2,1)] by (simp add: BytesIO_def)
qed

theorem value_codec_roundtrip_witness:
  "in_range STRING (PyStr [0x53, 0x70, 0xE9, 0x1F600]) \<and> \<not> leading_nul (PyStr [0x53, 0x70, 0xE9, 0x1F600])
   \<and> (\<exists>slot. serialize_value STRING (PyStr [0x53, 0x70, 0xE9, 0x1F600]) = Inr slot
          \<and> fst (deserialize_value STRING (BytesIO slot)) = Inr (PyStr [0x53, 0x70, 0xE9, 0x1F600]))"
proof -
  have r: "in_range STRING (PyStr [0x53, 0x70, 0xE9, 0x1F600])"
    by (simp add: in_range_def encode_char_def is_surrogate_def)
  have n: "\<not> leading_nul (PyStr [0x53, 0x70, 0xE9, 0x1F600])"
    by (simp add: leading_nul_def encode_char_def is_surrogate_def)
  show ?thesis using value_codec_roundtrip [OF r n] r n by simp
qed

text \<open>
  Claim C6.  \<open>_serialize_value\<close> fails for a string whose UTF-8 form is longer than 16
  bytes (the assertion on the width of the slot: the value is too large) and for an
  integer outside the signed 64-bit range (the \<open>OverflowError\<close> of \<open>int.to_bytes\<close>:
  out of range); for a value in range of the matching type it returns a slot of
  exactly the width of the datatype, 16 or 8 bytes.
\<close>

theorem value_codec_failures:
  "(str_encode s = Inr b \<longrightarrow> 16 < length b
      \<longrightarrow> serialize_value STRING (PyStr s) = Inl AssertionError)
   \<and> (i < - (2 ^ 63) \<or> 2 ^ 63 \<le> i \<longrightarrow> serialize_value INTEGER (PyInt i) = Inl OverflowError)
   \<and> (in_range dt v
      \<longrightarrow> (\<exists>slot. serialize_value dt v = Inr slot \<and> length slot = DATATYPE_LENGHTS dt))"
proof (intro conjI impI)
  assume "str_encode s = Inr b" "16 < length b"
  then show "serialize_value STRING (PyStr s) = Inl AssertionError"
    by (simp add: serialize_value_STRING)
next
  assume "i < - (2 ^ 63) \<or> 2 ^ 63 \<le> i"
  then show "serialize_value INTEGER (PyInt i) = Inl OverflowError"
    by (auto simp: serialize_value_INTEGER to_bytes_def)
next
  assume "in_range dt v"
  then obtain slot where "serialize_value dt v = Inr slot"
    using in_range_serialize by blast
  then show "\<exists>slot. serialize_value dt v = Inr slot \<and> length slot = DATATYPE_LENGHTS dt"
    using serialize_value_length by blast
qed

theorem value_codec_failures_witness:
  "str_encode (replicate 17 0x61) = Inr (replicate 17 0x61) \<and> 16 < length (replicate 17 (0x61 :: byte))
   \<and> serialize_value STRING (PyStr (replicate 17 0x61)) = Inl AssertionError
   \<and> (2 ^ 63 \<le> (2 ^ 63 :: int)) \<and> serialize_value INTEGER (PyInt (2 ^ 63)) = Inl OverflowError
   \<and> in_range INTEGER (PyInt (- 1))
   \<and> (\<exists>slot. serialize_value INTEGER (PyInt (- 1)) = Inr slot \<and> length slot = DATATYPE_LENGHTS INTEGER)"
proof -
  have e: "str_encode (replicate 17 0x61) = Inr (replicate 17 0x61)"
    by (simp add: numeral_eq_Suc encode_char_def)
  have r: "in_range INTEGER (PyInt (- 1))"
    by (simp add: in_range_def)
  show ?thesis
    using value_codec_failures [of "replicate 17 0x61" "replicate 17 0x61" "2 ^ 63" INTEGER "PyInt (- 1)"] e r
    by simp
qed

section \<open>The row codec and insert\<close>

lemma str_encode_error: "str_encode s = Inl e \<Longrightarrow> e = UnicodeEncodeError"
  by (induction s) (auto split: option.splits sum.splits)

lemma serialize_value_error:
  "serialize_value dt v = Inl e \<Longrightarrow>
     e \<in> {ValueError, AssertionError, OverflowError, UnicodeEncodeError}"
  by (auto simp: serialize_value_def to_bytes_def
      split: DataTypes.splits pyvalue.splits sum.splits if_splits dest: str_encode_error)

lemma serialize_columns_error:
  "serialize_columns cols vals = Inl e \<Longrightarrow>
     e \<in> {KeyError, ValueError, AssertionError, OverflowError, UnicodeEncodeError}"
proof (induction cols)
  case Nil
  then show ?case by simp
next
  case (Cons col cols)
  then show ?case
    using serialize_value_error [of "dtype col" _ e]
    by (auto simp: getitem_def split: option.splits sum.splits)
qed

lemma serialize_row_error:
  "serialize_row ti vals = Inl e \<Longrightarrow>
     e \<in> {KeyError, ValueError, AssertionError, OverflowError, UnicodeEncodeError}"
  using serialize_columns_error [of "columns ti" vals e]
  by (auto simp: serialize_row_def split: sum.splits if_splits)


lemma serialize_columns_length:
  "serialize_columns cols vals = Inr b \<Longrightarrow>
     length b = sum_list (map (\<lambda>col. DATATYPE_LENGHTS (dtype col)) cols)"
proof (induction cols arbitrary: b)
  case Nil
  then show ?case by simp
next
  case (Cons col cols)
  then show ?case
    by (auto split: sum.splits dest: serialize_value_length)
qed

lemma serialize_row_columns:
  "serialize_row ti vals = serialize_columns (columns ti) vals"
  by (auto simp: serialize_row_def row_length_def split: sum.splits dest: serialize_columns_length)



lemma insert_unknown_column:
  assumes "set (map fst inserted) - set (map name (columns (info self))) \<noteq> {}"
  shows "Table_insert self inserted fs =
           (Inl (ColumnDoesNotExist
                  (set (map fst inserted) - set (map name (columns (info self))))), fs)"
  using assms by (simp add: Table_insert_def Let_def)

lemma insert_missing_column:
  assumes "set (map fst inserted) - set (map name (columns (info self))) = {}"
    and "set (map name (columns (info self))) - set (map fst inserted) \<noteq> {}"
  shows "Table_insert self inserted fs = (Inl NotImplementedError, fs)"
  using assms unfolding Table_insert_def Let_def by (simp only: if_False if_True not_False_eq_True simp_thms)

lemma insert_complete:
  assumes "set (map fst inserted) = set (map name (columns (info self)))"
  shows "Table_insert self inserted fs =
           (case serialize_columns (columns (info self)) (dict inserted) of
              Inl e \<Rightarrow> (Inl e, open_ab fs (location self))
            | Inr row \<Rightarrow> (Inr (), fs(location self \<mapsto> file_bytes fs (location self) @ row)))"
proof -
  have "write_end (open_ab fs (location self)) (location self) row
          = fs(location self \<mapsto> file_bytes fs (location self) @ row)" for row
    by (auto simp: write_end_def open_ab_def file_bytes_def split: option.splits)
  then show ?thesis
    using assms by (simp add: Table_insert_def Let_def serialize_row_columns split: sum.splits)
qed


section \<open>Reading the JSON text of a schema\<close>

lemma hex4_lower:
  assumes "c < 0x20"
  shows "hex4 0x30 0x30 (hex_lower (c div 16)) (hex_lower (c mod 16)) = Some c"
proof -
  have d: "c div 16 < 2" using assms by auto
  have m: "c mod 16 < 16" by simp
  have hv: "\<And>n. n < 16 \<Longrightarrow> hex_value (hex_lower n) = Some n"
    by (auto simp: hex_value_def hex_lower_def)
  have "hex_value 0x30 = Some 0" by (simp add: hex_value_def)
  moreover have "hex_value (hex_lower (c div 16)) = Some (c div 16)" using d by (intro hv) simp
  moreover have "hex_value (hex_lower (c mod 16)) = Some (c mod 16)" using m by (rule hv)
  ultimately show ?thesis by (simp add: hex4_def)
qed

lemma lex_string_escape_char:
  "lex_string acc (escape_char c @ rest) = lex_string (acc @ [c]) rest"
proof -
  consider (quote) "c = 0x22" | (backslash) "c = 0x5C" | (short) "c \<in> {0x08, 0x09, 0x0A, 0x0C, 0x0D}"
    | (control) "c < 0x20" "c \<notin> {0x08, 0x09, 0x0A, 0x0C, 0x0D}"
    | (plain) "0x20 \<le> c" "c \<noteq> 0x22" "c \<noteq> 0x5C"
    by fastforce
  then show ?thesis
  proof cases
    case quote
    then show ?thesis by (simp add: escape_char_def unescape_def)
  next
    case backslash
    then show ?thesis by (simp add: escape_char_def unescape_def)
  next
    case short
    then show ?thesis by (auto simp add: escape_char_def unescape_def)
  next
    case control
    then have "\<not> is_surrogate c" by (simp add: is_surrogate_def)
    then show ?thesis using control hex4_lower [OF control(1)]
      by (simp add: escape_char_def)
  next
    case plain
    then show ?thesis by (simp add: escape_char_def)
  qed
qed

lemma lex_string_escaped:
  "lex_string acc (concat (map escape_char s) @ rest) = lex_string (acc @ s) rest"
  by (induction s arbitrary: acc) (simp_all add: lex_string_escape_char)

lemma lex_json_string:
  "lex (json_string s @ rest) = map_option ((#) (TString s)) (lex rest)"
  using lex_string_escaped [of "[]" s "0x22 # rest"]
  by (simp add: json_string_def)

lemma ascii_literals:
  "ascii ''{'' = [0x7B]" "ascii ''}'' = [0x7D]" "ascii '':'' = [0x3A]" "ascii '','' = [0x2C]"
  "ascii '':['' = [0x3A, 0x5B]" "ascii '']}'' = [0x5D, 0x7D]"
  by (simp_all add: ascii_def)

lemma lex_punctuation:
  "lex (0x7B # rest) = map_option ((#) LBrace) (lex rest)"
  "lex (0x7D # rest) = map_option ((#) RBrace) (lex rest)"
  "lex (0x5B # rest) = map_option ((#) LBracket) (lex rest)"
  "lex (0x5D # rest) = map_option ((#) RBracket) (lex rest)"
  "lex (0x3A # rest) = map_option ((#) Colon) (lex rest)"
  "lex (0x2C # rest) = map_option ((#) Comma) (lex rest)"
  by (simp_all add: punctuation_def is_space_def)

lemma lex_column_json:
  "lex (column_json col @ rest) = map_option ((@) (column_tokens col)) (lex rest)"
  by (cases "lex rest")
    (simp_all add: column_json_def ascii_literals lex_punctuation lex_json_string
      column_tokens_def del: lex.simps)

lemma lex_columns:
  "lex (join (ascii '','') (map column_json cols) @ rest)
     = map_option ((@) (join [Comma] (map column_tokens cols))) (lex rest)"
proof (induction cols rule: induct_list012)
  case 1
  then show ?case by (simp add: option.map_ident)
next
  case (2 col)
  then show ?case by (simp add: lex_column_json)
next
  case (3 col col' cols)
  then show ?case
    by (cases "lex rest")
      (simp_all add: lex_column_json ascii_literals lex_punctuation del: lex.simps)
qed

lemma lex_model_dump_json:
  assumes "model_dump_json ti = Inr text"
  shows "lex text = Some ([LBrace, TString (ascii ''columns''), Colon, LBracket]
           @ join [Comma] (map column_tokens (columns ti)) @ [RBracket, RBrace])"
proof -
  have "text = 0x7B # json_string (ascii ''columns'') @ 0x3A # 0x5B
          # join (ascii '','') (map column_json (columns ti)) @ [0x5D, 0x7D]"
    using assms by (simp add: model_dump_json_def ascii_literals split: if_splits)
  then show ?thesis
    by (simp add: lex_punctuation lex_json_string lex_columns del: lex.simps(2))
qed

lemma parse_datatype_literal: "parse_datatype (datatype_literal t) = Some t"
  by (cases t) (simp_all add: parse_datatype_def ascii_def)

lemma parse_column_tokens: "parse_column (column_tokens col) = Some col"
  by (simp add: parse_column_def column_tokens_def parse_datatype_literal)

lemma length_column_tokens: "length (column_tokens col) = 9"
  by (simp add: column_tokens_def)

lemma parse_columns_tokens:
  "cols \<noteq> [] \<Longrightarrow>
     parse_columns (join [Comma] (map column_tokens cols) @ [RBracket, RBrace]) = Some cols"
proof (induction cols rule: induct_list012)
  case 1
  then show ?case by simp
next
  case (2 col)
  show ?case
    by (subst parse_columns.simps)
      (simp add: length_column_tokens parse_column_tokens)
next
  case (3 col col' cols)
  then have "parse_columns (join [Comma] (map column_tokens (col' # cols)) @ [RBracket, RBrace])
               = Some (col' # cols)"
    by simp
  then show ?case
    by (subst parse_columns.simps)
      (simp add: length_column_tokens parse_column_tokens)
qed

lemma parse_schema_tokens:
  "parse_schema ([LBrace, TString (ascii ''columns''), Colon, LBracket]
     @ join [Comma] (map column_tokens (columns ti)) @ [RBracket, RBrace]) = Some ti"
proof (cases "columns ti")
  case Nil
  then show ?thesis by (simp add: parse_schema_def)
next
  case (Cons col cols)
  then have ne: "columns ti \<noteq> []" by simp
  have "join [Comma] (map column_tokens (columns ti)) @ [RBracket, RBrace] \<noteq> [RBracket, RBrace]"
    using Cons by (cases cols) (simp_all add: column_tokens_def)
  then show ?thesis
    using parse_columns_tokens [OF ne] by (simp add: parse_schema_def)
qed


section \<open>The JSON text of a schema is encodable and has no line feed\<close>

lemma encodable_append [simp]: "encodable (a @ b) \<longleftrightarrow> encodable a \<and> encodable b"
  by (simp add: encodable_def)

lemma encodable_Cons: "encodable (c # s) \<longleftrightarrow> encode_char c \<noteq> None \<and> encodable s"
  by (simp add: encodable_def)

lemma encodable_Nil [simp]: "encodable []"
  by (simp add: encodable_def)

lemma encode_char_small: "c < 0x800 \<Longrightarrow> encode_char c \<noteq> None"
  by (simp add: encode_char_def)

lemma encodable_small: "list_all (\<lambda>c. c < 0x800) s \<Longrightarrow> encodable s"
  by (induction s) (simp_all add: encodable_Cons encode_char_small)

lemma of_char_small: "(of_char c :: nat) < 0x800"
  using nat_of_char_less_256 [of c] by linarith

lemma encodable_ascii [simp]: "encodable (ascii s)"
  by (rule encodable_small) (simp add: ascii_def list_all_iff of_char_small)

lemma hex_lower_small: "n < 16 \<Longrightarrow> hex_lower n < 0x800"
  by (simp add: hex_lower_def)

lemma encodable_escape_char: "encode_char c \<noteq> None \<Longrightarrow> encodable (escape_char c)"
  by (simp add: escape_char_def encodable_Cons encode_char_small hex_lower_small)

lemma encodable_escaped: "encodable s \<Longrightarrow> encodable (concat (map escape_char s))"
  by (induction s) (simp_all add: encodable_Cons encodable_escape_char)

lemma encodable_json_string: "encodable s \<Longrightarrow> encodable (json_string s)"
  by (simp add: json_string_def encodable_Cons encode_char_small encodable_escaped)

lemma encodable_column_json: "encodable (name col) \<Longrightarrow> encodable (column_json col)"
  by (cases "dtype col") (simp_all add: column_json_def encodable_json_string)

lemma encodable_join:
  "encodable sep \<Longrightarrow> list_all encodable xs \<Longrightarrow> encodable (join sep xs)"
  by (induction xs rule: induct_list012) simp_all

lemma encodable_model_dump_json:
  assumes "model_dump_json ti = Inr text"
  shows "encodable text"
proof -
  have n: "list_all (\<lambda>col. encodable (name col)) (columns ti)"
    and t: "text = ascii ''{'' @ json_string (ascii ''columns'') @ ascii '':[''
                @ join (ascii '','') (map column_json (columns ti)) @ ascii '']}''"
    using assms by (auto simp: model_dump_json_def split: if_splits)
  have "list_all encodable (map column_json (columns ti))"
    using n by (simp add: list_all_iff encodable_column_json)
  then show ?thesis
    by (simp add: t encodable_json_string encodable_join)
qed

lemma str_encode_encodable: "encodable s \<Longrightarrow> \<exists>b. str_encode s = Inr b"
  by (induction s) (auto simp: encodable_Cons)

lemma str_encode_not_encodable: "\<not> encodable s \<Longrightarrow> str_encode s = Inl UnicodeEncodeError"
proof (induction s)
  case Nil
  then show ?case by simp
next
  case (Cons c s)
  show ?case
  proof (cases "encode_char c")
    case None
    then show ?thesis by simp
  next
    case (Some bs)
    then have "\<not> encodable s" using Cons.prems by (simp add: encodable_Cons)
    then show ?thesis using Cons.IH Some by simp
  qed
qed

lemma no_newline_escape_char: "0x0A \<notin> set (escape_char c)"
  by (auto simp: escape_char_def hex_lower_def)

lemma no_newline_json_string: "0x0A \<notin> set (json_string s)"
  using no_newline_escape_char by (auto simp: json_string_def)

lemma no_newline_ascii:
  "0x0A \<notin> set (ascii ''name'')" "0x0A \<notin> set (ascii ''datatype'')"
  "0x0A \<notin> set (ascii ''columns'')" "0x0A \<notin> set (ascii ''STRING'')"
  "0x0A \<notin> set (ascii ''INTEGER'')"
  by (simp_all add: ascii_def)

lemma no_newline_column_json: "0x0A \<notin> set (column_json col)"
  by (simp add: column_json_def ascii_literals no_newline_json_string)

lemma no_newline_join:
  "x \<notin> set sep \<Longrightarrow> \<forall>s\<in>set xs. x \<notin> set s \<Longrightarrow> x \<notin> set (join sep xs)"
  by (induction xs rule: induct_list012) simp_all

lemma no_newline_model_dump_json:
  assumes "model_dump_json ti = Inr js"
  shows "0x0A \<notin> set js"
proof -
  have t: "js = ascii ''{'' @ json_string (ascii ''columns'') @ ascii '':[''
                @ join (ascii '','') (map column_json (columns ti)) @ ascii '']}''"
    using assms by (auto simp: model_dump_json_def split: if_splits)
  have "0x0A \<notin> set (join (ascii '','') (map column_json (columns ti)))"
    by (rule no_newline_join) (auto simp: ascii_literals no_newline_column_json)
  then show ?thesis
    by (simp add: t ascii_literals no_newline_json_string)
qed

lemma no_newline_encode_char:
  assumes "encode_char c = Some bs" "c \<noteq> 0x0A"
  shows "0x0A \<notin> set bs"
proof -
  have hi: "\<And>x :: byte. 128 \<le> unat x \<Longrightarrow> x \<noteq> 0x0A" by auto
  have b: "\<And>k x. x < 64 \<Longrightarrow> (128 + word_of_nat x :: byte) \<noteq> 0x0A"
    by (rule hi) (simp add: unat_lead)
  consider (1) "c < 0x80" | (2) "0x80 \<le> c" "c < 0x800"
    | (3) "0x800 \<le> c" "c < 0x10000" "\<not> is_surrogate c"
    | (4) "0x10000 \<le> c" "c < 0x110000"
    using assms by (auto simp: encode_char_def split: if_splits)
  then show ?thesis
  proof cases
    case 1
    then have "unat (of_nat c :: byte) = c" by (simp add: unat_byte)
    then have "(of_nat c :: byte) \<noteq> 0x0A" using assms(2) by auto
    then show ?thesis using 1 assms by (auto simp add: encode_char_def)
  next
    case 2
    then have "c div 64 < 32" by auto
    then have "(192 + word_of_nat (c div 64) :: byte) \<noteq> 0x0A"
      by (intro hi) (simp add: unat_lead)
    then show ?thesis using 2 assms b [of "c mod 64"] by (auto simp add: encode_char_def)
  next
    case 3
    then have "c div 4096 < 16" by auto
    then have "(224 + word_of_nat (c div 4096) :: byte) \<noteq> 0x0A"
      by (intro hi) (simp add: unat_lead)
    then show ?thesis
      using 3 assms b [of "c mod 64"] b [of "c div 64 mod 64"]
      by (auto simp add: encode_char_def)
  next
    case 4
    then have "c div 262144 < 8" by auto
    then have "(240 + word_of_nat (c div 262144) :: byte) \<noteq> 0x0A"
      by (intro hi) (simp add: unat_lead)
    moreover have "\<not> is_surrogate c" using 4 by (simp add: is_surrogate_def)
    ultimately show ?thesis
      using 4 assms b [of "c mod 64"] b [of "c div 64 mod 64"] b [of "c div 4096 mod 64"]
      by (auto simp add: encode_char_def)
  qed
qed

lemma no_newline_str_encode:
  "str_encode s = Inr b \<Longrightarrow> 0x0A \<notin> set s \<Longrightarrow> 0x0A \<notin> set b"
proof (induction s arbitrary: b)
  case Nil
  then show ?case by simp
next
  case (Cons c s)
  then obtain bc r where bc: "encode_char c = Some bc" and r: "str_encode s = Inr r"
    and b: "b = bc @ r"
    by (auto split: option.splits sum.splits)
  have "0x0A \<notin> set bc" using no_newline_encode_char [OF bc] Cons.prems(2) by simp
  moreover have "0x0A \<notin> set r" using Cons.IH [OF r] Cons.prems(2) by simp
  ultimately show ?case by (simp add: b)
qed


section \<open>The header codec\<close>

lemma serialize_header_encodable:
  assumes "list_all (\<lambda>col. encodable (name col)) (columns ti)"
  obtains js body where "model_dump_json ti = Inr js" "str_encode js = Inr body"
    "serialize_header ti = Inr (body @ [0x0A])" "0x0A \<notin> set body"
proof -
  obtain js where js: "model_dump_json ti = Inr js"
    using assms by (simp add: model_dump_json_def)
  obtain body where body: "str_encode js = Inr body"
    using str_encode_encodable [OF encodable_model_dump_json [OF js]] by blast
  have nl: "0x0A \<notin> set js" by (rule no_newline_model_dump_json [OF js])
  have "serialize_header ti = Inr (body @ [0x0A])"
    using js body nl by (simp add: serialize_header_def)
  moreover have "0x0A \<notin> set body" by (rule no_newline_str_encode [OF body nl])
  ultimately show thesis using that js body by blast
qed

lemma serialize_header_not_encodable:
  assumes "\<not> list_all (\<lambda>col. encodable (name col)) (columns ti)"
  shows "serialize_header ti = Inl PydanticSerializationError"
  using assms by (simp add: serialize_header_def model_dump_json_def)

lemma model_validate_json_dump:
  assumes "model_dump_json ti = Inr js" "str_encode js = Inr body"
  shows "model_validate_json body = Inr ti"
  using bytes_decode_str_encode [OF assms(2), of strict] lex_model_dump_json [OF assms(1)]
    parse_schema_tokens [of ti]
  by (simp add: model_validate_json_def)

lemma deserialize_serialize_header:
  assumes "serialize_header ti = Inr h"
  shows "deserialize_header h = Inr (ti, length h)"
proof -
  have enc: "list_all (\<lambda>col. encodable (name col)) (columns ti)"
    using assms serialize_header_not_encodable by fastforce
  obtain js body where tb: "model_dump_json ti = Inr js" "str_encode js = Inr body"
    and sh: "serialize_header ti = Inr (body @ [0x0A])"
    using serialize_header_encodable [OF enc] by blast
  have h: "h = body @ [0x0A]" using assms sh by simp
  show ?thesis
    using model_validate_json_dump [OF tb]
    by (simp add: deserialize_header_def h endswith_def)
qed


section \<open>Facts of the example\<close>


lemma people_serialize: "serialize_header people = Inr people_header"
  by code_simp


lemma people_names: "map name (columns (info people_table)) = [ascii ''name'', ascii ''age'']"
  by (simp add: people_table_def people_def)

lemma spam_foo_unknown: "set (map fst spam_foo) - set (map name (columns (info people_table))) = {ascii ''foo''}"
  by (simp add: people_names spam_foo_def ascii_def insert_Diff_if)







section \<open>File names are recovered\<close>

lemma hex_value_upper: "n < 16 \<Longrightarrow> hex_value (hex_upper n) = Some n"
  by (auto simp: hex_value_def hex_upper_def)

lemma hex_upper_plain: "n < 16 \<Longrightarrow> hex_upper n \<noteq> 0x2B \<and> hex_upper n \<noteq> 0x25 \<and> hex_upper n < 0x80"
  by (auto simp: hex_upper_def)

lemma always_safe_plain:
  "always_safe b \<Longrightarrow> unat b \<noteq> 0x2B \<and> unat b \<noteq> 0x25 \<and> unat b < 0x80"
  by (auto simp: always_safe_def Let_def)

lemma byte_of_nibbles: "of_nat (unat b div 16 * 16 + unat b mod 16) = (b :: byte)"
  by simp

lemma nibbles_less: "unat (b :: byte) div 16 < 16" "unat (b :: byte) mod 16 < 16"
proof -
  have "unat b < 2 ^ LENGTH(8)" by (rule unsigned_less)
  then have "unat b < 256" by simp
  then show "unat b div 16 < 16" by simp
  show "unat b mod 16 < 16" by simp
qed

lemma unquote_to_bytes_quote_byte:
  "unquote_to_bytes (map (\<lambda>c. if c = 0x2B then 0x20 else c) (quote_byte b) @ rest)
     = b # unquote_to_bytes rest"
proof -
  consider (safe) "always_safe b" | (space) "\<not> always_safe b" "b = 0x20"
    | (other) "\<not> always_safe b" "b \<noteq> 0x20"
    by blast
  then show ?thesis
  proof cases
    case safe
    then show ?thesis using always_safe_plain [OF safe] by (simp add: quote_byte_def)
  next
    case space
    then show ?thesis by (simp add: quote_byte_def)
  next
    case other
    have h: "hex_value (hex_upper (unat b div 16)) = Some (unat b div 16)"
      "hex_value (hex_upper (unat b mod 16)) = Some (unat b mod 16)"
      using nibbles_less [of b] by (simp_all add: hex_value_upper)
    have p: "hex_upper (unat b div 16) \<noteq> 0x2B" "hex_upper (unat b mod 16) \<noteq> 0x2B"
      using nibbles_less [of b] hex_upper_plain by blast+
    show ?thesis
      using other h p byte_of_nibbles [of b]
      by (simp add: quote_byte_def del: of_nat_add of_nat_mult)
  qed
qed

lemma unquote_to_bytes_quoted:
  "unquote_to_bytes (map (\<lambda>c. if c = 0x2B then 0x20 else c) (concat (map quote_byte bs))) = bs"
  by (induction bs) (simp_all add: unquote_to_bytes_quote_byte del: unquote_to_bytes.simps(2))

lemma quote_byte_ascii: "list_all (\<lambda>c. c < 0x80) (quote_byte b)"
  using always_safe_plain [of b] nibbles_less [of b] hex_upper_plain
  by (auto simp: quote_byte_def)

lemma quoted_ascii:
  "list_all (\<lambda>c. c < 0x80) (map (\<lambda>c. if c = 0x2B then 0x20 else c) (concat (map quote_byte bs)))"
proof -
  have m: "list_all (\<lambda>c. c < 0x80) (map (\<lambda>c. if c = 0x2B then 0x20 else c) xs)"
    if "list_all (\<lambda>c. c < 0x80) xs" for xs :: str
    using that by (induction xs) auto
  show ?thesis
    by (induction bs) (simp_all add: m quote_byte_ascii)
qed

lemma unquote_parts_ascii:
  "list_all (\<lambda>c. c < 0x80) s \<Longrightarrow> unquote_parts run s = unquote_run (run @ s)"
  by (induction s arbitrary: run) simp_all

lemma bytes_decode_ascii:
  "list_all (\<lambda>b. unat b < 0x80) bs \<Longrightarrow> bytes_decode m bs = Inr (map unat bs)"
  by (induction bs) (simp_all add: decode_step_def)

lemma no_percent_quoted:
  assumes "0x25 \<notin> set (map (\<lambda>c. if c = 0x2B then 0x20 else c) (concat (map quote_byte bs)))"
  shows "list_all (\<lambda>b. unat b < 0x80) bs
         \<and> map (\<lambda>c. if c = 0x2B then 0x20 else c) (concat (map quote_byte bs)) = map unat bs"
  using assms
proof (induction bs)
  case Nil
  then show ?case by simp
next
  case (Cons b bs)
  then have ih: "list_all (\<lambda>b. unat b < 0x80) bs"
    "map (\<lambda>c. if c = 0x2B then 0x20 else c) (concat (map quote_byte bs)) = map unat bs"
    by simp_all
  have np: "0x25 \<notin> set (quote_byte b)"
    using Cons.prems by (auto split: if_splits)
  have "always_safe b \<or> b = 0x20"
    using np by (auto simp: quote_byte_def split: if_splits)
  then show ?case
  proof
    assume s: "always_safe b"
    then have "quote_byte b = [unat b]" by (simp add: quote_byte_def)
    then show ?thesis using ih always_safe_plain [OF s] by simp
  next
    assume "b = 0x20"
    then have "quote_byte b = [0x2B]" "unat b = 0x20"
      by (simp_all add: quote_byte_def always_safe_def)
    then show ?thesis using ih by simp
  qed
qed

lemma unquote_plus_quote_plus:
  assumes "quote_plus nm = Inr q"
  shows "unquote_plus q = Inr nm"
proof -
  obtain bs where bs: "str_encode nm = Inr bs" and q: "q = concat (map quote_byte bs)"
    using assms by (auto simp: quote_plus_def split: sum.splits)
  let ?spaced = "map (\<lambda>c. if c = 0x2B then 0x20 else c) q"
  have dec: "bytes_decode replace bs = Inr nm"
    by (rule bytes_decode_str_encode [OF bs])
  show ?thesis
  proof (cases "0x25 \<in> set ?spaced")
    case True
    have "unquote_parts [] ?spaced = unquote_run ?spaced"
      using unquote_parts_ascii [of ?spaced "[]"] quoted_ascii [of bs] by (simp add: q)
    also have "\<dots> = Inr nm"
      using dec by (simp add: unquote_run_def q unquote_to_bytes_quoted)
    finally show ?thesis using True by (simp add: unquote_plus_def Let_def)
  next
    case False
    then have a: "list_all (\<lambda>b. unat b < 0x80) bs" and s: "?spaced = map unat bs"
      using no_percent_quoted [of bs] by (simp_all add: q)
    have "nm = map unat bs" using bytes_decode_ascii [OF a, of replace] dec by simp
    then show ?thesis using False s by (simp add: unquote_plus_def Let_def)
  qed
qed


section \<open>Creating and opening a table\<close>

lemma readline_header:
  assumes "0x0A \<notin> set body"
  shows "fst (readline (BytesIO (body @ 0x0A # rest))) = body @ [0x0A]"
proof -
  have "takeWhile (\<lambda>b. b \<noteq> 0x0A) (body @ 0x0A # rest) = body"
    using assms by (induction body) auto
  then show ?thesis by (simp add: readline_def BytesIO_def Let_def)
qed

lemma serialize_header_shape:
  assumes "serialize_header ti = Inr h"
  obtains body where "h = body @ [0x0A]" "0x0A \<notin> set body"
proof -
  have "list_all (\<lambda>col. encodable (name col)) (columns ti)"
    using assms serialize_header_not_encodable by fastforce
  then show thesis using serialize_header_encodable [of ti] assms that by force
qed

lemma Table_init_header:
  assumes "serialize_header ti = Inr h" "unquote_plus f = Inr nm" "fs f = Some (h @ rows)"
  shows "Table_init fs (Entry f)
           = Inr \<lparr>location = f, table_name = nm, info = ti, data_start = length h\<rparr>"
proof -
  obtain body where h: "h = body @ [0x0A]" and nl: "0x0A \<notin> set body"
    using serialize_header_shape [OF assms(1)] by blast
  have "fst (readline (BytesIO (h @ rows))) = h"
    using readline_header [OF nl, of rows] by (simp add: h)
  then show ?thesis
    using assms deserialize_serialize_header [OF assms(1)]
    by (simp add: Table_init_def open_rb_def)
qed

lemma joinpath_cases: "joinpath q = Entry q \<or> joinpath q = This \<or> joinpath q = Parent"
  by (simp add: joinpath_def)



lemma create_fresh:
  assumes "length nm \<le> MAX_TABLE_NAME_LENGTH" "quote_plus nm = Inr q"
    "\<not> exists_path fs (joinpath q)" "serialize_header ti = Inr h"
  shows "Table_create nm ti fs
           = (Inr \<lparr>location = q, table_name = nm, info = ti, data_start = length h\<rparr>,
              fs(q \<mapsto> h))"
proof -
  have j: "joinpath q = Entry q"
    using assms(3) joinpath_cases [of q] by (auto simp: exists_path_def)
  have "Table_init (fs(q \<mapsto> h)) (Entry q)
          = Inr \<lparr>location = q, table_name = nm, info = ti, data_start = length h\<rparr>"
    using Table_init_header [OF assms(4) unquote_plus_quote_plus [OF assms(2)], of "fs(q \<mapsto> h)" "[]"]
    by simp
  then show ?thesis
    using assms j by (simp add: Table_create_def write_bytes_def)
qed

lemma create_success:
  assumes "Table_create nm ti fs = (Inr t, fs')"
  obtains q h where "length nm \<le> MAX_TABLE_NAME_LENGTH" "quote_plus nm = Inr q"
    "\<not> exists_path fs (joinpath q)" "serialize_header ti = Inr h"
    "t = \<lparr>location = q, table_name = nm, info = ti, data_start = length h\<rparr>"
    "fs' = fs(q \<mapsto> h)"
proof -
  have len: "length nm \<le> MAX_TABLE_NAME_LENGTH"
    using assms by (auto simp: Table_create_def split: if_splits)
  obtain q where q: "quote_plus nm = Inr q"
    using assms len by (cases "quote_plus nm") (auto simp: Table_create_def)
  have ne: "\<not> exists_path fs (joinpath q)"
    using assms len q by (auto simp: Table_create_def split: if_splits)
  obtain h where h: "serialize_header ti = Inr h"
    using assms len q ne by (cases "serialize_header ti") (auto simp: Table_create_def)
  show thesis
    using that [OF len q ne h] assms create_fresh [OF len q ne h] by simp
qed



section \<open>Creating the example\<close>

lemma people_quote: "quote_plus (ascii ''people'') = Inr (ascii ''people'')"
  by code_simp

lemma people_path: "joinpath (ascii ''people'') = Entry (ascii ''people'')"
  by code_simp

lemma people_short: "length (ascii ''people'') \<le> MAX_TABLE_NAME_LENGTH"
  by (simp add: ascii_def MAX_TABLE_NAME_LENGTH_def)

lemma people_header_length: "length people_header = 86"
  by (simp add: people_header_def people_json_def)

lemma people_fresh: "\<not> exists_path Map.empty (joinpath (ascii ''people''))"
  by (simp add: people_path exists_path_def)


lemma people_create:
  "Table_create (ascii ''people'') people Map.empty = (Inr people_table, people_dir)"
  using create_fresh [OF people_short people_quote people_fresh people_serialize]
  by (simp add: people_table_def people_dir_def people_header_length)


section \<open>The header claims\<close>






section \<open>The insert claims\<close>




text \<open>
  Claim C10.  Whenever \<open>insert\<close> fails with \<open>ColumnDoesNotExist\<close> or with
  \<open>NotImplementedError\<close>, the directory, and with it the file of the table and the
  length of the table, is unchanged.
\<close>

theorem insert_failure_leaves_file:
  assumes "Table_insert self inserted fs = (Inl e, fs')"
    and "e = NotImplementedError \<or> (\<exists>cols. e = ColumnDoesNotExist cols)"
  shows "fs' = fs \<and> Table_length self fs' = Table_length self fs"
proof -
  have "fs' = fs"
  proof (cases "set (map fst inserted) - set (map name (columns (info self))) \<noteq> {}")
    case True
    then show ?thesis using assms(1) by (simp add: insert_unknown_column)
  next
    case extra: False
    show ?thesis
    proof (cases "set (map name (columns (info self))) - set (map fst inserted) \<noteq> {}")
      case True
      then show ?thesis using assms(1) extra by (simp add: insert_missing_column)
    next
      case False
      then have eq: "set (map fst inserted) = set (map name (columns (info self)))"
        using extra by blast
      have "serialize_columns (columns (info self)) (dict inserted) = Inl e"
        using assms(1) by (simp add: insert_complete [OF eq] split: sum.splits)
      then show ?thesis using serialize_columns_error assms(2) by fastforce
    qed
  qed
  then show ?thesis by simp
qed

theorem insert_failure_leaves_file_witness:
  "Table_insert people_table spam_foo people_dir
     = (Inl (ColumnDoesNotExist {ascii ''foo''}), people_dir)
   \<and> (ColumnDoesNotExist {ascii ''foo''} = NotImplementedError
        \<or> (\<exists>cols. ColumnDoesNotExist {ascii ''foo''} = ColumnDoesNotExist cols))
   \<and> people_dir = people_dir
   \<and> Table_length people_table people_dir = Table_length people_table people_dir"
proof -
  have h: "set (map fst spam_foo) - set (map name (columns (info people_table))) \<noteq> {}"
    unfolding spam_foo_unknown by simp
  have i: "Table_insert people_table spam_foo people_dir
     = (Inl (ColumnDoesNotExist {ascii ''foo''}), people_dir)"
    using insert_unknown_column [OF h, of people_dir] unfolding spam_foo_unknown .
  have e: "ColumnDoesNotExist {ascii ''foo''} = NotImplementedError
        \<or> (\<exists>cols. ColumnDoesNotExist {ascii ''foo''} = ColumnDoesNotExist cols)"
    by simp
  show ?thesis
    using insert_failure_leaves_file [OF i e] i e by blast
qed


section \<open>The create claims\<close>



text \<open>
  Claim C8.  After \<open>create\<close> has succeeded, opening the table again at the location
  of the handle gives the same handle: its schema is the schema given to \<open>create\<close>
  and its name is the name given, the file name being the \<open>quote_plus\<close> form of the
  name and \<open>unquote_plus\<close> of the file name being the name again, whatever characters
  the name has.
\<close>

theorem create_then_reopen:
  assumes "Table_create nm ti fs = (Inr t, fs')"
  shows "Table_init fs' (Entry (location t)) = Inr t \<and> info t = ti \<and> table_name t = nm
         \<and> quote_plus nm = Inr (location t) \<and> unquote_plus (location t) = Inr nm"
proof -
  obtain q h where q: "quote_plus nm = Inr q" and h: "serialize_header ti = Inr h"
    and t: "t = \<lparr>location = q, table_name = nm, info = ti, data_start = length h\<rparr>"
    and fs': "fs' = fs(q \<mapsto> h)"
    using create_success [OF assms] by metis
  have "Table_init fs' (Entry q) = Inr t"
    using Table_init_header [OF h unquote_plus_quote_plus [OF q], of fs' "[]"]
    by (simp add: fs' t)
  then show ?thesis
    using q unquote_plus_quote_plus [OF q] by (simp add: t)
qed

theorem create_then_reopen_witness:
  "Table_create (ascii ''people'') people Map.empty = (Inr people_table, people_dir)
   \<and> Table_init people_dir (Entry (location people_table)) = Inr people_table
   \<and> info people_table = people \<and> table_name people_table = ascii ''people''
   \<and> quote_plus (ascii ''people'') = Inr (location people_table)
   \<and> unquote_plus (location people_table) = Inr (ascii ''people'')"
  using create_then_reopen [OF people_create] people_create by simp


end
